theory Spec2Isabelle
  imports Main
begin

section \<open>The YouTube data collector: data model\<close>

text \<open>
  The development embeds \<^verbatim>\<open>youtube_data_collector.py\<close>, class
  \<^verbatim>\<open>YouTubeDataCollector\<close>. Everything the methods touch outside their
  arguments is a field of one record, the world: the remote platform, the requests sent
  to it, the checkpoint file, the table \<^verbatim>\<open>videos\<close>, the log file and the console.

  Python strings are lists of characters; a character of the model is a code point
  below 256. Python integers are \<open>int\<close>. A response of the platform has the keys
  the program reads without a test (the types of the records say so); the one key it
  tests for, \<^verbatim>\<open>'items'\<close> of a statistics response, is optional.
\<close>

type_synonym token = string

text \<open>
  A counter of a statistics payload is whatever JSON value the platform sent (the
  platform sends decimal strings); the default of \<^verbatim>\<open>statistics.get(key, 0)\<close> is
  the integer 0.
\<close>

datatype pyval = PyInt int | PyStr string | PyNone

text \<open>\<^verbatim>\<open>googleapiclient.errors.HttpError\<close>, with \<^verbatim>\<open>e.resp.status\<close> and \<^verbatim>\<open>e.content\<close>.\<close>

datatype error = HttpError (status: int) (content: string)

text \<open>One page of a list endpoint: \<^verbatim>\<open>response['items']\<close> and \<^verbatim>\<open>response.get('nextPageToken')\<close>.\<close>

record 'a page =
  items :: "'a list"
  nextPageToken :: "token option"

text \<open>
  A subscription item, read as \<^verbatim>\<open>item['snippet']['resourceId']['channelId']\<close> and
  \<^verbatim>\<open>item['snippet']['title']\<close>.
\<close>

record subscription =
  channelId :: string
  title :: string

text \<open>A search result, read as \<^verbatim>\<open>video['id']['videoId']\<close> and \<^verbatim>\<open>video['snippet']['title']\<close>.\<close>

record video =
  videoId :: string
  videoTitle :: string

text \<open>
  An item of a \<^verbatim>\<open>videos().list(part='statistics')\<close> response, read as
  \<^verbatim>\<open>item['statistics']\<close>, a dictionary. The response itself may lack the key
  \<^verbatim>\<open>'items'\<close>: it is an optional list.
\<close>

record details_item =
  statistics :: "string \<rightharpoonup> pyval"

type_synonym video_details = "details_item list option"

text \<open>The parameters of one \<^verbatim>\<open>INSERT INTO videos VALUES (?, ?, ?, ?, ?)\<close>.\<close>

record video_row =
  channel_title :: string
  video_title :: string
  views :: pyval
  likes :: pyval
  comment_count :: pyval

text \<open>
  The requests of the program, each the arguments that vary: the listing of the
  subscriptions (\<^verbatim>\<open>part\<close>, \<^verbatim>\<open>pageToken\<close>; \<^verbatim>\<open>mine=True, maxResults=50\<close> always),
  the search of a channel's videos (\<^verbatim>\<open>channelId\<close>, \<^verbatim>\<open>pageToken\<close>;
  \<^verbatim>\<open>type='video', maxResults=50\<close> always, \<^verbatim>\<open>publishedAfter\<close> left to the
  platform's state) and the statistics of one video (\<^verbatim>\<open>id\<close>).
\<close>

datatype request =
    SubscriptionsList string "token option"
  | SearchList string "token option"
  | VideosList string

text \<open>
  The client \<^verbatim>\<open>self.youtube\<close>: what \<^verbatim>\<open>execute()\<close> answers to each request in a
  state \<open>'s\<close> of the platform, and the state after. An answer is a response or a raised
  \<^verbatim>\<open>HttpError\<close>.
\<close>

record 's youtube =
  subscriptions_list :: "string \<Rightarrow> token option \<Rightarrow> 's \<Rightarrow> (error + subscription page) \<times> 's"
  search_list :: "string \<Rightarrow> token option \<Rightarrow> 's \<Rightarrow> (error + video page) \<times> 's"
  videos_list :: "string \<Rightarrow> 's \<Rightarrow> (error + video_details) \<times> 's"

text \<open>
  The messages of the program: \<^verbatim>\<open>"Video '<title>' data saved successfully."\<close>,
  \<^verbatim>\<open>"Data fetching and storage completed successfully."\<close> and
  \<^verbatim>\<open>"An HTTP error <status> occurred:\n<content>"\<close>.
\<close>

datatype message =
    Video_saved string
  | Completed
  | Http_error_occurred int string

datatype level = INFO | ERROR

record 's world =
  remote :: 's
  calls :: "request list"
  checkpoint_file :: "string option"
  videos :: "video_row list"
  logfile :: "(level \<times> message) list"
  console :: "message list"

text \<open>
  \<open>checkpoint_file\<close> is the text of \<^verbatim>\<open>processed_channels.txt\<close>, \<open>None\<close> when
  \<^verbatim>\<open>os.path.exists\<close> is false. \<open>calls\<close> lists the requests executed so far, oldest
  first. The file system and the database do not fail in this model; the pauses
  (\<^verbatim>\<open>time.sleep\<close>) and the progress bar have no effect on it.

  A Python \<^verbatim>\<open>set\<close> of strings is a list without regard to order: \<open>set_add\<close> is
  \<^verbatim>\<open>s.add(x)\<close>, \<open>set_len\<close> is \<^verbatim>\<open>len(s)\<close>, membership is \<open>x \<in> set s\<close>, and
  \<^verbatim>\<open>for x in s\<close> runs through the list.
\<close>

type_synonym pyset = "string list"

definition set_add :: "string \<Rightarrow> pyset \<Rightarrow> pyset" where
  "set_add x s = (if x \<in> set s then s else s @ [x])"

definition set_len :: "pyset \<Rightarrow> int" where
  "set_len s = int (card (set s))"

section \<open>The checkpoint file\<close>

definition LF :: char where "LF = CHR 0x0A"
definition CR :: char where "CR = CHR 0x0D"

text \<open>
  The line boundaries of \<^verbatim>\<open>str.splitlines\<close> among the code points below 256:
  line feed, vertical tab, form feed, carriage return, the file, group and record
  separators, and next line.
\<close>

definition line_boundary :: "char \<Rightarrow> bool" where
  "line_boundary c \<longleftrightarrow>
     c = CHR 0x0A \<or> c = CHR 0x0B \<or> c = CHR 0x0C \<or> c = CHR 0x0D \<or>
     c = CHR 0x1C \<or> c = CHR 0x1D \<or> c = CHR 0x1E \<or> c = CHR 0x85"

text \<open>
  \<^verbatim>\<open>str.splitlines\<close>, with the line read so far as first argument: a boundary ends
  the line (a carriage return followed by a line feed is one boundary), and what
  follows the last boundary is a line only when it is not empty.
\<close>

fun splitlines_from :: "string \<Rightarrow> string \<Rightarrow> string list" where
  "splitlines_from cur [] = (if cur = [] then [] else [cur])"
| "splitlines_from cur [c] =
     (if line_boundary c then [cur] else [cur @ [c]])"
| "splitlines_from cur (c # d # cs) =
     (if c = CR \<and> d = LF then cur # splitlines_from [] cs
      else if line_boundary c then cur # splitlines_from [] (d # cs)
      else splitlines_from (cur @ [c]) (d # cs))"

definition splitlines :: "string \<Rightarrow> string list" where
  "splitlines s = splitlines_from [] s"

text \<open>
  Reading a file opened with \<^verbatim>\<open>open(name, 'r')\<close>: universal newlines turn
  a carriage return, alone or followed by a line feed, into a line feed.
\<close>

fun universal_newlines :: "string \<Rightarrow> string" where
  "universal_newlines [] = []"
| "universal_newlines [c] = (if c = CR then [LF] else [c])"
| "universal_newlines (c # d # cs) =
     (if c = CR \<and> d = LF then LF # universal_newlines cs
      else if c = CR then LF # universal_newlines (d # cs)
      else c # universal_newlines (d # cs))"

definition load_processed_channels :: "'s world \<Rightarrow> pyset" where
  "load_processed_channels w =
     (case checkpoint_file w of
        Some text \<Rightarrow> remdups (splitlines (universal_newlines text))
      | None \<Rightarrow> [])"

text \<open>The loop of \<^verbatim>\<open>save_processed_channels\<close>: one \<^verbatim>\<open>file.write(channel_id + '\n')\<close> each.\<close>

fun write_lines :: "string list \<Rightarrow> string" where
  "write_lines [] = []"
| "write_lines (channel_id # rest) = (channel_id @ [LF]) @ write_lines rest"

definition save_processed_channels :: "pyset \<Rightarrow> 's world \<Rightarrow> 's world" where
  "save_processed_channels processed_channels w =
     w\<lparr>checkpoint_file := Some (write_lines processed_channels)\<rparr>"

section \<open>Requests\<close>

text \<open>\<^verbatim>\<open>execute()\<close>: the platform answers and moves on, and the request is on record.\<close>

definition execute_subscriptions_list ::
  "'s youtube \<Rightarrow> string \<Rightarrow> token option \<Rightarrow> 's world \<Rightarrow> (error + subscription page) \<times> 's world" where
  "execute_subscriptions_list yt part pageToken w =
     (case subscriptions_list yt part pageToken (remote w) of
        (r, s) \<Rightarrow> (r, w\<lparr>remote := s, calls := calls w @ [SubscriptionsList part pageToken]\<rparr>))"

definition execute_search_list ::
  "'s youtube \<Rightarrow> string \<Rightarrow> token option \<Rightarrow> 's world \<Rightarrow> (error + video page) \<times> 's world" where
  "execute_search_list yt channel_id pageToken w =
     (case search_list yt channel_id pageToken (remote w) of
        (r, s) \<Rightarrow> (r, w\<lparr>remote := s, calls := calls w @ [SearchList channel_id pageToken]\<rparr>))"

definition execute_videos_list ::
  "'s youtube \<Rightarrow> string \<Rightarrow> 's world \<Rightarrow> (error + video_details) \<times> 's world" where
  "execute_videos_list yt video_id w =
     (case videos_list yt video_id (remote w) of
        (r, s) \<Rightarrow> (r, w\<lparr>remote := s, calls := calls w @ [VideosList video_id]\<rparr>))"

text \<open>\<^verbatim>\<open>not next_page_token\<close>: no token, or the empty one.\<close>

definition no_token :: "token option \<Rightarrow> bool" where
  "no_token t \<longleftrightarrow> t = None \<or> t = Some []"

section \<open>The methods\<close>

text \<open>
  A method returns the raised error (\<open>Inl\<close>) or its value (\<open>Inr\<close>), and the world
  after. A method with a \<^verbatim>\<open>while True\<close> loop returns \<open>None\<close> when the loop never
  ends.
\<close>

partial_function (option) count_loop ::
  "'s youtube \<Rightarrow> int \<Rightarrow> token option \<Rightarrow> 's world \<Rightarrow> ((error + int) \<times> 's world) option" where
  "count_loop yt count next_page_token w =
     (case execute_subscriptions_list yt ''id'' next_page_token w of
        (Inl e, w') \<Rightarrow> Some (Inl e, w')
      | (Inr subscriptions, w') \<Rightarrow>
          if no_token (nextPageToken subscriptions)
          then Some (Inr (count + int (length (items subscriptions))), w')
          else count_loop yt (count + int (length (items subscriptions)))
                 (nextPageToken subscriptions) w')"

declare count_loop.simps [code]

definition get_total_subscription_count ::
  "'s youtube \<Rightarrow> 's world \<Rightarrow> ((error + int) \<times> 's world) option" where
  "get_total_subscription_count yt w = count_loop yt 0 None w"

definition stat :: "(string \<rightharpoonup> pyval) \<Rightarrow> string \<Rightarrow> pyval" where
  "stat st key = (case st key of Some v \<Rightarrow> v | None \<Rightarrow> PyInt 0)"

definition save_to_database ::
  "string \<Rightarrow> string \<Rightarrow> (string \<rightharpoonup> pyval) \<Rightarrow> 's world \<Rightarrow> 's world" where
  "save_to_database channel_title' video_title' st w =
     w\<lparr>videos := videos w @
        [\<lparr>channel_title = channel_title', video_title = video_title',
          views = stat st ''viewCount'', likes = stat st ''likeCount'',
          comment_count = stat st ''commentCount''\<rparr>]\<rparr>"

definition process_video ::
  "'s youtube \<Rightarrow> string \<Rightarrow> video \<Rightarrow> 's world \<Rightarrow> (error + unit) \<times> 's world" where
  "process_video yt channel_title' v w =
     (case execute_videos_list yt (videoId v) w of
        (Inl e, w') \<Rightarrow> (Inl e, w')
      | (Inr video_details, w') \<Rightarrow>
          (let w'' = (case video_details of
                        Some (item # _) \<Rightarrow>
                          save_to_database channel_title' (videoTitle v) (statistics item) w'
                      | _ \<Rightarrow> w')
           in (Inr (), w''\<lparr>logfile := logfile w'' @ [(INFO, Video_saved (videoTitle v))]\<rparr>)))"

text \<open>The \<^verbatim>\<open>for video in videos_request['items']\<close> of \<^verbatim>\<open>process_subscription\<close>.\<close>

fun process_videos ::
  "'s youtube \<Rightarrow> string \<Rightarrow> video list \<Rightarrow> 's world \<Rightarrow> (error + unit) \<times> 's world" where
  "process_videos yt channel_title' [] w = (Inr (), w)"
| "process_videos yt channel_title' (v # vs) w =
     (case process_video yt channel_title' v w of
        (Inl e, w') \<Rightarrow> (Inl e, w')
      | (Inr _, w') \<Rightarrow> process_videos yt channel_title' vs w')"

partial_function (option) search_loop ::
  "'s youtube \<Rightarrow> string \<Rightarrow> string \<Rightarrow> token option \<Rightarrow> 's world \<Rightarrow> ((error + unit) \<times> 's world) option" where
  "search_loop yt channel_id channel_title' next_page_token w =
     (case execute_search_list yt channel_id next_page_token w of
        (Inl e, w') \<Rightarrow> Some (Inl e, w')
      | (Inr videos_request, w') \<Rightarrow>
          (case process_videos yt channel_title' (items videos_request) w' of
             (Inl e, w'') \<Rightarrow> Some (Inl e, w'')
           | (Inr _, w'') \<Rightarrow>
               if no_token (nextPageToken videos_request) then Some (Inr (), w'')
               else search_loop yt channel_id channel_title'
                      (nextPageToken videos_request) w''))"

declare search_loop.simps [code]

definition process_subscription ::
  "'s youtube \<Rightarrow> subscription \<Rightarrow> 's world \<Rightarrow> ((error + unit) \<times> 's world) option" where
  "process_subscription yt item w =
     search_loop yt (channelId item) (title item) None w"

text \<open>The \<^verbatim>\<open>for item in subscriptions['items']\<close> of \<^verbatim>\<open>fetch_and_store_data\<close>.\<close>

fun process_items ::
  "'s youtube \<Rightarrow> subscription list \<Rightarrow> pyset \<Rightarrow> 's world \<Rightarrow> ((error + pyset) \<times> 's world) option" where
  "process_items yt [] processed_channels w = Some (Inr processed_channels, w)"
| "process_items yt (item # rest) processed_channels w =
     (if channelId item \<notin> set processed_channels then
        (case process_subscription yt item w of
           None \<Rightarrow> None
         | Some (Inl e, w') \<Rightarrow> Some (Inl e, w')
         | Some (Inr _, w') \<Rightarrow>
             process_items yt rest (set_add (channelId item) processed_channels) w')
      else process_items yt rest processed_channels w)"

text \<open>The \<^verbatim>\<open>while True\<close> of \<^verbatim>\<open>fetch_and_store_data\<close>, lines 58 to 71.\<close>

partial_function (option) subscription_loop ::
  "'s youtube \<Rightarrow> token option \<Rightarrow> pyset \<Rightarrow> 's world \<Rightarrow> ((error + pyset) \<times> 's world) option" where
  "subscription_loop yt next_page_token processed_channels w =
     (case execute_subscriptions_list yt ''snippet'' next_page_token w of
        (Inl e, w') \<Rightarrow> Some (Inl e, w')
      | (Inr subscriptions, w') \<Rightarrow>
          (case process_items yt (items subscriptions) processed_channels w' of
             None \<Rightarrow> None
           | Some (Inl e, w'') \<Rightarrow> Some (Inl e, w'')
           | Some (Inr processed_channels', w'') \<Rightarrow>
               if no_token (nextPageToken subscriptions)
               then Some (Inr processed_channels', w'')
               else subscription_loop yt (nextPageToken subscriptions)
                      processed_channels' w''))"

declare subscription_loop.simps [code]

text \<open>
  The call of \<^verbatim>\<open>get_total_subscription_count\<close> is before the \<^verbatim>\<open>try\<close>: its error
  is the method's. An error of the loop is caught, logged and printed.
\<close>

definition fetch_and_store_data ::
  "'s youtube \<Rightarrow> 's world \<Rightarrow> ((error + unit) \<times> 's world) option" where
  "fetch_and_store_data yt w =
     (let processed_channels = load_processed_channels w in
      case get_total_subscription_count yt w of
        None \<Rightarrow> None
      | Some (Inl e, w1) \<Rightarrow> Some (Inl e, w1)
      | Some (Inr total_subscriptions, w1) \<Rightarrow>
          (case subscription_loop yt None processed_channels w1 of
             None \<Rightarrow> None
           | Some (Inl e, w2) \<Rightarrow>
               Some (Inr (),
                 w2\<lparr>logfile := logfile w2 @ [(ERROR, Http_error_occurred (status e) (content e))],
                    console := console w2 @ [Http_error_occurred (status e) (content e)]\<rparr>)
           | Some (Inr processed_channels', w2) \<Rightarrow>
               (let w3 = save_processed_channels
                           (if set_len processed_channels' \<ge> total_subscriptions then []
                            else processed_channels') w2
                in Some (Inr (), w3\<lparr>logfile := logfile w3 @ [(INFO, Completed)]\<rparr>))))"

section \<open>What a run leaves behind\<close>

text \<open>
  \<^verbatim>\<open>process_subscription\<close> starts with the request of the first page of the channel's
  videos, and nothing else sends that request: the channels whose processing was
  started are read off the requests. The pages of the subscription listing that were
  fetched are read off the requests as well.
\<close>

fun channels_processed :: "request list \<Rightarrow> string list" where
  "channels_processed [] = []"
| "channels_processed (SearchList channel_id None # rs) = channel_id # channels_processed rs"
| "channels_processed (_ # rs) = channels_processed rs"

fun pages_requested :: "request list \<Rightarrow> token option list" where
  "pages_requested [] = []"
| "pages_requested (SubscriptionsList part pageToken # rs) = pageToken # pages_requested rs"
| "pages_requested (_ # rs) = pages_requested rs"

definition requests_between :: "'s world \<Rightarrow> 's world \<Rightarrow> request list" where
  "requests_between w w' = drop (length (calls w)) (calls w')"

definition continues :: "'s world \<Rightarrow> 's world \<Rightarrow> bool" where
  "continues w w' \<longleftrightarrow> (\<exists>new. calls w' = calls w @ new)"

text \<open>
  \<open>extends w w'\<close>: between \<open>w\<close> and \<open>w'\<close> requests were sent, rows inserted and lines
  logged, and nothing else happened: the checkpoint file and the console are as they
  were.
\<close>

definition extends :: "'s world \<Rightarrow> 's world \<Rightarrow> bool" where
  "extends w w' \<longleftrightarrow>
     continues w w' \<and>
     checkpoint_file w' = checkpoint_file w \<and>
     (\<exists>rows. videos w' = videos w @ rows) \<and>
     (\<exists>ls. logfile w' = logfile w @ ls) \<and>
     console w' = console w"

text \<open>
  What holds of a part of the pass over the subscriptions that started with the
  checkpoint \<open>pc\<close> in \<open>w\<close> and ended in \<open>w'\<close>, with an error or with a checkpoint: no
  channel was processed twice, none that was in \<open>pc\<close>, and the checkpoint it ended with
  is \<open>pc\<close> and the channels processed.
\<close>

definition pass_post :: "pyset \<Rightarrow> 's world \<Rightarrow> (error + pyset) \<Rightarrow> 's world \<Rightarrow> bool" where
  "pass_post pc w r w' \<longleftrightarrow>
     continues w w' \<and>
     distinct (channels_processed (requests_between w w')) \<and>
     set (channels_processed (requests_between w w')) \<inter> set pc = {} \<and>
     (\<forall>pc'. r = Inr pc' \<longrightarrow>
        set pc' = set pc \<union> set (channels_processed (requests_between w w')))"

text \<open>
  A platform that holds one listing of the subscriptions during the run: whatever else
  it is asked and in whatever state, it answers a request of the listing with the page
  \<open>listing pageToken\<close>.
\<close>

definition serves :: "'s youtube \<Rightarrow> (token option \<Rightarrow> subscription page) \<Rightarrow> bool" where
  "serves yt listing \<longleftrightarrow>
     (\<forall>part pageToken s. fst (subscriptions_list yt part pageToken s) = Inr (listing pageToken))"

text \<open>
  The listing is the pages \<open>pages\<close>, from \<open>pageToken\<close> on: every page but the last
  comes with a continuation token, which leads to the next page, and the last page
  comes with none.
\<close>

fun linked :: "(token option \<Rightarrow> subscription page) \<Rightarrow> token option \<Rightarrow> subscription list list \<Rightarrow> bool" where
  "linked listing pageToken [] = False"
| "linked listing pageToken [p] =
     (items (listing pageToken) = p \<and> no_token (nextPageToken (listing pageToken)))"
| "linked listing pageToken (p # q # ps) =
     (items (listing pageToken) = p \<and> \<not> no_token (nextPageToken (listing pageToken)) \<and>
      linked listing (nextPageToken (listing pageToken)) (q # ps))"

text \<open>The channel processor returns, without an error, for every item of \<open>its\<close>.\<close>

definition processor_returns :: "'s youtube \<Rightarrow> subscription list \<Rightarrow> bool" where
  "processor_returns yt its \<longleftrightarrow>
     (\<forall>item\<in>set its. \<forall>w. \<exists>w'. process_subscription yt item w = Some (Inr (), w'))"

section \<open>Platforms and worlds to run the collector on\<close>

text \<open>
  An account with two subscriptions, listed one a page. The first channel has one
  video; the second has three on two pages of the search, one of them without
  statistics. The state of these platforms is the number of requests answered.
\<close>

definition sub_a :: subscription where
  "sub_a = \<lparr>channelId = ''UCa'', title = ''Alpha''\<rparr>"

definition sub_b :: subscription where
  "sub_b = \<lparr>channelId = ''UCb'', title = ''Beta''\<rparr>"

definition demo_listing :: "token option \<Rightarrow> subscription page" where
  "demo_listing pageToken =
     (if pageToken = Some ''p2'' then \<lparr>items = [sub_b], nextPageToken = None\<rparr>
      else \<lparr>items = [sub_a], nextPageToken = Some ''p2''\<rparr>)"

text \<open>The pages of that listing.\<close>

definition demo_pages :: "subscription list list" where
  "demo_pages = [[sub_a], [sub_b]]"

definition demo_search :: "string \<Rightarrow> token option \<Rightarrow> video page" where
  "demo_search channel_id pageToken =
     (if channel_id = ''UCa'' then
        \<lparr>items = [\<lparr>videoId = ''v1'', videoTitle = ''First''\<rparr>], nextPageToken = None\<rparr>
      else if channel_id = ''UCb'' \<and> pageToken = None then
        \<lparr>items = [\<lparr>videoId = ''v2'', videoTitle = ''Second''\<rparr>,
                  \<lparr>videoId = ''v3'', videoTitle = ''Third''\<rparr>],
         nextPageToken = Some ''s2''\<rparr>
      else if channel_id = ''UCb'' then
        \<lparr>items = [\<lparr>videoId = ''v4'', videoTitle = ''Fourth''\<rparr>], nextPageToken = None\<rparr>
      else \<lparr>items = [], nextPageToken = None\<rparr>)"

definition demo_details :: "string \<Rightarrow> video_details" where
  "demo_details video_id =
     (if video_id = ''v1'' then
        Some [\<lparr>statistics = [''viewCount'' \<mapsto> PyStr ''10'', ''likeCount'' \<mapsto> PyStr ''2'']\<rparr>]
      else if video_id = ''v2'' then
        Some [\<lparr>statistics = [''viewCount'' \<mapsto> PyStr ''7'', ''commentCount'' \<mapsto> PyStr ''1'']\<rparr>]
      else if video_id = ''v3'' then Some []
      else None)"

definition demo :: "nat youtube" where
  "demo =
     \<lparr>subscriptions_list = (\<lambda>part pageToken n. (Inr (demo_listing pageToken), Suc n)),
      search_list = (\<lambda>channel_id pageToken n. (Inr (demo_search channel_id pageToken), Suc n)),
      videos_list = (\<lambda>video_id n. (Inr (demo_details video_id), Suc n))\<rparr>"

text \<open>The same account when the quota runs out at the statistics of the third video.\<close>

definition quota :: "nat youtube" where
  "quota =
     demo\<lparr>videos_list := (\<lambda>video_id n.
       (if video_id = ''v3'' then Inl (HttpError 403 ''quotaExceeded'')
        else Inr (demo_details video_id), Suc n))\<rparr>"

text \<open>The same account when the quota has run out before the run.\<close>

definition down :: "nat youtube" where
  "down =
     demo\<lparr>subscriptions_list := (\<lambda>part pageToken n. (Inl (HttpError 403 ''quotaExceeded''), Suc n))\<rparr>"

text \<open>
  An account that follows one channel without videos when the run starts and a second
  one from its third request on.
\<close>

definition drifting :: "nat youtube" where
  "drifting =
     \<lparr>subscriptions_list = (\<lambda>part pageToken n.
        (Inr (if n < 2 then \<lparr>items = [sub_a], nextPageToken = None\<rparr>
              else \<lparr>items = [sub_a, sub_b], nextPageToken = None\<rparr>), Suc n)),
      search_list = (\<lambda>channel_id pageToken n. (Inr \<lparr>items = [], nextPageToken = None\<rparr>, Suc n)),
      videos_list = (\<lambda>video_id n. (Inr None, Suc n))\<rparr>"

text \<open>
  The world of a first run, the world of a run after the first channel was
  checkpointed, and the world of a run whose checkpoint holds a channel that is no
  longer followed.
\<close>

definition fresh_world :: "nat world" where
  "fresh_world =
     \<lparr>remote = 0, calls = [], checkpoint_file = None, videos = [], logfile = [], console = []\<rparr>"

definition resumed_world :: "nat world" where
  "resumed_world = fresh_world\<lparr>checkpoint_file := Some (''UCa'' @ [LF])\<rparr>"

definition stale_world :: "nat world" where
  "stale_world = fresh_world\<lparr>checkpoint_file := Some (''UCx'' @ [LF])\<rparr>"


section \<open>Requests and frames\<close>

lemma channels_processed_append:
  "channels_processed (xs @ ys) = channels_processed xs @ channels_processed ys"
  by (induction xs rule: channels_processed.induct) simp_all

lemma pages_requested_append:
  "pages_requested (xs @ ys) = pages_requested xs @ pages_requested ys"
  by (induction xs rule: pages_requested.induct) simp_all

lemma continues_refl: "continues w w"
  by (simp add: continues_def)

lemma continues_trans:
  assumes "continues w w'" and "continues w' w''"
  shows "continues w w''"
  using assms unfolding continues_def by (elim exE) simp

lemma requests_between_refl: "requests_between w w = []"
  by (simp add: requests_between_def)

lemma requests_between_trans:
  assumes "continues w w'" and "continues w' w''"
  shows "requests_between w w'' = requests_between w w' @ requests_between w' w''"
proof -
  from assms obtain xs ys where "calls w' = calls w @ xs" "calls w'' = calls w' @ ys"
    by (auto simp: continues_def)
  then show ?thesis by (simp add: requests_between_def)
qed

lemma extends_continues: "extends w w' \<Longrightarrow> continues w w'"
  by (simp add: extends_def)

lemma extends_refl: "extends w w"
  by (simp add: extends_def continues_refl)

lemma extends_trans:
  assumes "extends w w'" and "extends w' w''"
  shows "extends w w''"
proof -
  from assms have "continues w w''"
    by (blast intro: continues_trans extends_continues)
  moreover from assms have "checkpoint_file w'' = checkpoint_file w" "console w'' = console w"
    by (simp_all add: extends_def)
  moreover from assms have "\<exists>rows. videos w'' = videos w @ rows"
    unfolding extends_def by (elim conjE exE) simp
  moreover from assms have "\<exists>ls. logfile w'' = logfile w @ ls"
    unfolding extends_def by (elim conjE exE) simp
  ultimately show ?thesis by (simp add: extends_def)
qed

lemma extends_requests:
  assumes "extends w w'" and "extends w' w''"
  shows "requests_between w w'' = requests_between w w' @ requests_between w' w''"
  using assms by (blast intro: requests_between_trans extends_continues)

lemma execute_subscriptions_list_extends:
  assumes "execute_subscriptions_list yt part tok w = (r, w')"
  shows "extends w w'" and "requests_between w w' = [SubscriptionsList part tok]"
    and "videos w' = videos w" and "logfile w' = logfile w"
  using assms
  by (auto simp: execute_subscriptions_list_def extends_def continues_def requests_between_def
           split: prod.splits)

lemma execute_search_list_extends:
  assumes "execute_search_list yt c tok w = (r, w')"
  shows "extends w w'" and "requests_between w w' = [SearchList c tok]"
  using assms
  by (auto simp: execute_search_list_def extends_def continues_def requests_between_def
           split: prod.splits)

lemma process_video_extends:
  assumes "process_video yt ct v w = (r, w')"
  shows "extends w w'" and "requests_between w w' = [VideosList (videoId v)]"
  using assms unfolding process_video_def
  by (auto simp: Let_def save_to_database_def extends_def continues_def requests_between_def
        execute_videos_list_def
      split: prod.splits sum.splits option.splits list.splits)

lemma process_videos_extends:
  "process_videos yt ct vs w = (r, w') \<Longrightarrow>
   extends w w' \<and> channels_processed (requests_between w w') = [] \<and>
   pages_requested (requests_between w w') = []"
proof (induction vs arbitrary: w)
  case Nil
  then show ?case by (simp add: extends_refl requests_between_refl)
next
  case (Cons v vs)
  obtain r1 w1 where pv: "process_video yt ct v w = (r1, w1)"
    by (cases "process_video yt ct v w")
  note e1 = process_video_extends [OF pv]
  show ?case
  proof (cases r1)
    case (Inl e)
    with Cons.prems pv have "w' = w1" by simp
    with e1 show ?thesis by simp
  next
    case (Inr u)
    with Cons.prems pv have "process_videos yt ct vs w1 = (r, w')" by simp
    from Cons.IH [OF this] e1 show ?thesis
      by (simp add: extends_requests [of w w1 w'] extends_trans [of w w1 w']
            channels_processed_append pages_requested_append)
  qed
qed

lemma search_loop_extends:
  assumes "search_loop yt channel_id ct tok w = Some y"
  shows "extends w (snd y) \<and>
   channels_processed (requests_between w (snd y)) = (if tok = None then [channel_id] else []) \<and>
   pages_requested (requests_between w (snd y)) = []"
proof (rule search_loop.raw_induct [where P = "\<lambda>yt channel_id ct tok w y.
   extends w (snd y) \<and>
   channels_processed (requests_between w (snd y)) = (if tok = None then [channel_id] else []) \<and>
   pages_requested (requests_between w (snd y)) = []", OF _ assms], goal_cases)
  case (1 loop yt channel_id ct tok w y)
  obtain r1 w1 where ex: "execute_search_list yt channel_id tok w = (r1, w1)"
    by (cases "execute_search_list yt channel_id tok w")
  note e1 = execute_search_list_extends [OF ex]
  have first: "channels_processed (requests_between w w1) = (if tok = None then [channel_id] else [])"
    using e1 by (cases tok) simp_all
  have first_pages: "pages_requested (requests_between w w1) = []"
    using e1 by simp
  show ?case
  proof (cases r1)
    case (Inl e)
    with 1(2) ex have "snd y = w1" by auto
    with e1 first first_pages show ?thesis by simp
  next
    case (Inr page)
    obtain r2 w2 where pv: "process_videos yt ct (items page) w1 = (r2, w2)"
      by (cases "process_videos yt ct (items page) w1")
    note e2 = process_videos_extends [OF pv]
    have e12: "extends w w2" using e1 e2 by (blast intro: extends_trans)
    have r12: "requests_between w w2 = requests_between w w1 @ requests_between w1 w2"
      using e1(1) e2 [THEN conjunct1] by (rule extends_requests)
    show ?thesis
    proof (cases r2)
      case (Inl e)
      with 1(2) ex Inr pv have "snd y = w2" by auto
      with e12 r12 e2 first first_pages show ?thesis
        by (simp add: channels_processed_append pages_requested_append)
    next
      case r2: (Inr u)
      show ?thesis
      proof (cases "no_token (nextPageToken page)")
        case True
        with 1(2) ex Inr pv r2 have "snd y = w2" by auto
        with e12 r12 e2 first first_pages show ?thesis
          by (simp add: channels_processed_append pages_requested_append)
      next
        case False
        with 1(2) ex Inr pv r2
        have rec: "loop yt channel_id ct (nextPageToken page) w2 = Some y" by auto
        from False have "nextPageToken page \<noteq> None" by (simp add: no_token_def)
        with 1(1) [OF rec]
        have e3: "extends w2 (snd y)"
          "channels_processed (requests_between w2 (snd y)) = []"
          "pages_requested (requests_between w2 (snd y)) = []" by simp_all
        have "requests_between w (snd y) = requests_between w w2 @ requests_between w2 (snd y)"
          using e12 e3(1) by (rule extends_requests)
        with e12 e3 r12 e2 first first_pages show ?thesis
          by (simp add: channels_processed_append pages_requested_append
                extends_trans [of w w2 "snd y"])
      qed
    qed
  qed
qed

lemma count_loop_extends:
  assumes "count_loop yt c tok w = Some y"
  shows "extends w (snd y) \<and> channels_processed (requests_between w (snd y)) = [] \<and>
         videos (snd y) = videos w \<and> logfile (snd y) = logfile w"
proof (rule count_loop.raw_induct [where P = "\<lambda>yt c tok w y.
   extends w (snd y) \<and> channels_processed (requests_between w (snd y)) = [] \<and>
         videos (snd y) = videos w \<and> logfile (snd y) = logfile w", OF _ assms], goal_cases)
  case (1 loop yt c tok w y)
  obtain r1 w1 where ex: "execute_subscriptions_list yt ''id'' tok w = (r1, w1)"
    by (cases "execute_subscriptions_list yt ''id'' tok w")
  note e1 = execute_subscriptions_list_extends [OF ex]
  show ?case
  proof (cases r1)
    case (Inl e)
    with 1(2) ex have "y = (Inl e, w1)" by auto
    with e1 show ?thesis by simp
  next
    case (Inr page)
    show ?thesis
    proof (cases "no_token (nextPageToken page)")
      case True
      with 1(2) ex Inr have "snd y = w1" by auto
      with e1 show ?thesis by simp
    next
      case False
      with 1(2) ex Inr
      have rec: "loop yt (c + int (length (items page))) (nextPageToken page) w1 = Some y" by auto
      note ih = 1(1) [OF rec]
      from e1(1) ih [THEN conjunct1]
      have "requests_between w (snd y) = requests_between w w1 @ requests_between w1 (snd y)"
        by (rule extends_requests)
      with e1 ih show ?thesis
        by (simp add: channels_processed_append extends_trans [of w w1 "snd y"])
    qed
  qed
qed

section \<open>The pass over the subscriptions\<close>

lemma pass_post_start:
  assumes "extends w w1" and "channels_processed (requests_between w w1) = []"
  shows "pass_post pc w (Inr pc) w1" and "pass_post pc w (Inl e) w1"
  using assms by (simp_all add: pass_post_def extends_continues)

lemma pass_post_trans:
  assumes "pass_post pc w (Inr pc1) w1" and "pass_post pc1 w1 r w2"
  shows "pass_post pc w r w2"
proof -
  let ?a = "channels_processed (requests_between w w1)"
  let ?b = "channels_processed (requests_between w1 w2)"
  from assms have e: "continues w w1" "continues w1 w2" by (simp_all add: pass_post_def)
  then have rb: "channels_processed (requests_between w w2) = ?a @ ?b"
    by (simp add: requests_between_trans channels_processed_append)
  from assms(1) have a: "distinct ?a" "set ?a \<inter> set pc = {}" "set pc1 = set pc \<union> set ?a"
    by (simp_all add: pass_post_def)
  from assms(2) have b: "distinct ?b" "set ?b \<inter> set pc1 = {}"
    "\<forall>pc'. r = Inr pc' \<longrightarrow> set pc' = set pc1 \<union> set ?b"
    by (simp_all add: pass_post_def)
  from e have "continues w w2" by (rule continues_trans)
  moreover from a b have "distinct (?a @ ?b)" by auto
  moreover from a b have "set (?a @ ?b) \<inter> set pc = {}" by auto
  moreover from a b have "\<forall>pc'. r = Inr pc' \<longrightarrow> set pc' = set pc \<union> set (?a @ ?b)" by auto
  ultimately show ?thesis unfolding pass_post_def rb by blast
qed

lemma set_set_add: "set (set_add x s) = insert x (set s)"
  by (auto simp: set_add_def)

lemma process_subscription_post:
  assumes "process_subscription yt item w = Some (r, w')" and "channelId item \<notin> set pc"
  shows "pass_post pc w (case r of Inl e \<Rightarrow> Inl e | Inr u \<Rightarrow> Inr (set_add (channelId item) pc)) w'"
    and "pages_requested (requests_between w w') = []"
    and "extends w w'"
  using search_loop_extends [of yt "channelId item" "title item" None w "(r, w')"] assms
  by (auto simp: process_subscription_def pass_post_def set_set_add extends_continues
      split: sum.splits)

lemma process_items_post:
  "process_items yt its pc w = Some (r, w') \<Longrightarrow>
   pass_post pc w r w' \<and> extends w w' \<and> pages_requested (requests_between w w') = [] \<and>
   (\<forall>pc'. r = Inr pc' \<longrightarrow> set pc' = set pc \<union> channelId ` set its)"
proof (induction its arbitrary: pc w)
  case Nil
  then show ?case
    by (auto simp: pass_post_start extends_refl requests_between_refl)
next
  case (Cons item rest)
  show ?case
  proof (cases "channelId item \<in> set pc")
    case True
    with Cons.prems have "process_items yt rest pc w = Some (r, w')" by simp
    from Cons.IH [OF this] True show ?thesis by auto
  next
    case False
    with Cons.prems obtain r1 w1 where ps: "process_subscription yt item w = Some (r1, w1)"
      by (cases "process_subscription yt item w") auto
    note p1 = process_subscription_post [OF ps False]
    show ?thesis
    proof (cases r1)
      case (Inl e)
      with Cons.prems False ps have "r = Inl e" "w' = w1" by simp_all
      with p1 Inl show ?thesis by simp
    next
      case (Inr u)
      with Cons.prems False ps
      have rec: "process_items yt rest (set_add (channelId item) pc) w1 = Some (r, w')" by simp
      note ih = Cons.IH [OF rec]
      from p1(1) Inr have a: "pass_post pc w (Inr (set_add (channelId item) pc)) w1" by simp
      from a ih have "pass_post pc w r w'" by (blast intro: pass_post_trans)
      moreover from p1(3) ih have "extends w w'" by (blast intro: extends_trans)
      moreover from p1(3) ih
      have "requests_between w w' = requests_between w w1 @ requests_between w1 w'"
        by (simp add: extends_requests)
      with p1(2) ih have "pages_requested (requests_between w w') = []"
        by (simp add: pages_requested_append)
      moreover from ih
      have "\<forall>pc'. r = Inr pc' \<longrightarrow> set pc' = set pc \<union> channelId ` set (item # rest)"
        by (auto simp: set_set_add)
      ultimately show ?thesis by blast
    qed
  qed
qed

lemma subscription_loop_post:
  assumes "subscription_loop yt tok pc w = Some y"
  shows "pass_post pc w (fst y) (snd y) \<and> extends w (snd y)"
proof (rule subscription_loop.raw_induct [where P = "\<lambda>yt tok pc w y.
   pass_post pc w (fst y) (snd y) \<and> extends w (snd y)", OF _ assms], goal_cases)
  case (1 loop yt tok pc w y)
  obtain r1 w1 where ex: "execute_subscriptions_list yt ''snippet'' tok w = (r1, w1)"
    by (cases "execute_subscriptions_list yt ''snippet'' tok w")
  note e1 = execute_subscriptions_list_extends [OF ex]
  from e1 have p1: "pass_post pc w (Inr pc) w1" and p1e: "\<And>e. pass_post pc w (Inl e) w1"
    by (simp_all add: pass_post_start)
  show ?case
  proof (cases r1)
    case (Inl e)
    with 1(2) ex have "y = (Inl e, w1)" by auto
    with p1e e1 show ?thesis by simp
  next
    case (Inr page)
    with 1(2) ex obtain r2 w2 where pi: "process_items yt (items page) pc w1 = Some (r2, w2)"
      by (cases "process_items yt (items page) pc w1") auto
    from process_items_post [OF pi] have p2: "pass_post pc w1 r2 w2" and e2: "extends w1 w2"
      by simp_all
    have e12: "extends w w2" using e1(1) e2 by (rule extends_trans)
    show ?thesis
    proof (cases r2)
      case (Inl e)
      with 1(2) ex Inr pi have "y = (Inl e, w2)" by auto
      with pass_post_trans [OF p1 p2] Inl e12 show ?thesis by simp
    next
      case r2: (Inr pc2)
      show ?thesis
      proof (cases "no_token (nextPageToken page)")
        case True
        with 1(2) ex Inr pi r2 have "y = (Inr pc2, w2)" by auto
        with pass_post_trans [OF p1 p2] r2 e12 show ?thesis by simp
      next
        case False
        with 1(2) ex Inr pi r2
        have rec: "loop yt (nextPageToken page) pc2 w2 = Some y" by auto
        note ih = 1(1) [OF rec]
        from pass_post_trans [OF p1 p2] r2 have "pass_post pc w (Inr pc2) w2" by simp
        from pass_post_trans [OF this ih [THEN conjunct1]]
          extends_trans [OF e12 ih [THEN conjunct2]]
        show ?thesis by simp
      qed
    qed
  qed
qed

section \<open>A listing in pages\<close>

lemma serves_execute:
  assumes "serves yt listing"
  shows "\<exists>w'. execute_subscriptions_list yt part tok w = (Inr (listing tok), w')"
proof -
  from assms have "fst (subscriptions_list yt part tok (remote w)) = Inr (listing tok)"
    by (simp add: serves_def)
  then show ?thesis
    by (cases "subscriptions_list yt part tok (remote w)")
       (simp add: execute_subscriptions_list_def)
qed

lemma count_loop_pages:
  "serves yt listing \<Longrightarrow> linked listing tok pages \<Longrightarrow>
   \<exists>w'. count_loop yt c tok w = Some (Inr (c + int (length (concat pages))), w')"
proof (induction listing tok pages arbitrary: c w rule: linked.induct)
  case (1 listing tok)
  then show ?case by simp
next
  case (2 listing tok p)
  from serves_execute [OF 2(1), of "''id''" tok w]
  obtain w1 where "execute_subscriptions_list yt ''id'' tok w = (Inr (listing tok), w1)"
    by blast
  with 2 show ?case by (subst count_loop.simps) simp
next
  case (3 listing tok p q ps)
  from serves_execute [OF 3(2), of "''id''" tok w]
  obtain w1 where ex: "execute_subscriptions_list yt ''id'' tok w = (Inr (listing tok), w1)"
    by blast
  from 3 have l: "linked listing (nextPageToken (listing tok)) (q # ps)" by simp
  from "3.IH" [OF 3(2) l, of "c + int (length p)" w1]
  obtain w' where "count_loop yt (c + int (length p)) (nextPageToken (listing tok)) w1
    = Some (Inr (c + int (length p) + int (length (concat (q # ps)))), w')" by blast
  with ex 3(3) show ?case by (subst count_loop.simps) (simp add: add.assoc)
qed

lemma process_items_total:
  assumes "processor_returns yt its"
  shows "\<exists>pc' w'. process_items yt its pc w = Some (Inr pc', w')"
  using assms
proof (induction its arbitrary: pc w)
  case Nil
  then show ?case by simp
next
  case (Cons item rest)
  from Cons.prems have rest: "processor_returns yt rest"
    by (simp add: processor_returns_def)
  show ?case
  proof (cases "channelId item \<in> set pc")
    case True
    with Cons.IH [OF rest] show ?thesis by simp
  next
    case False
    from Cons.prems obtain w1 where "process_subscription yt item w = Some (Inr (), w1)"
      by (fastforce simp: processor_returns_def)
    with False Cons.IH [OF rest, of "set_add (channelId item) pc" w1] show ?thesis by simp
  qed
qed

lemma subscription_loop_total:
  "serves yt listing \<Longrightarrow> linked listing tok pages \<Longrightarrow>
   processor_returns yt (concat pages) \<Longrightarrow>
   \<exists>pc' w'. subscription_loop yt tok pc w = Some (Inr pc', w')"
proof (induction listing tok pages arbitrary: pc w rule: linked.induct)
  case (1 listing tok)
  then show ?case by simp
next
  case (2 listing tok p)
  from serves_execute [OF 2(1), of "''snippet''" tok w]
  obtain w1 where ex: "execute_subscriptions_list yt ''snippet'' tok w = (Inr (listing tok), w1)"
    by blast
  from 2(3) have "processor_returns yt p" by (simp add: processor_returns_def)
  from process_items_total [OF this, of pc w1]
  obtain pc1 w2 where "process_items yt p pc w1 = Some (Inr pc1, w2)" by blast
  with ex 2(2) show ?case by (subst subscription_loop.simps) simp
next
  case (3 listing tok p q ps)
  from serves_execute [OF 3(2), of "''snippet''" tok w]
  obtain w1 where ex: "execute_subscriptions_list yt ''snippet'' tok w = (Inr (listing tok), w1)"
    by blast
  from 3(4) have "processor_returns yt p" by (simp add: processor_returns_def)
  from process_items_total [OF this, of pc w1]
  obtain pc1 w2 where pi: "process_items yt p pc w1 = Some (Inr pc1, w2)" by blast
  from 3(3) have l: "linked listing (nextPageToken (listing tok)) (q # ps)" by simp
  from 3(4) have "processor_returns yt (concat (q # ps))" by (simp add: processor_returns_def)
  from "3.IH" [OF 3(2) l this, of pc1 w2]
  obtain pc' w' where "subscription_loop yt (nextPageToken (listing tok)) pc1 w2 = Some (Inr pc', w')"
    by blast
  with ex pi 3(3) show ?case by (subst subscription_loop.simps) simp
qed

lemma subscription_loop_pages:
  "serves yt listing \<Longrightarrow> linked listing tok pages \<Longrightarrow>
   subscription_loop yt tok pc w = Some (Inr pc', w') \<Longrightarrow>
   map (\<lambda>t. items (listing t)) (pages_requested (requests_between w w')) = pages \<and>
   set pc' = set pc \<union> channelId ` set (concat pages)"
proof (induction listing tok pages arbitrary: pc w rule: linked.induct)
  case (1 listing tok)
  then show ?case by simp
next
  case (2 listing tok p)
  from serves_execute [OF 2(1), of "''snippet''" tok w]
  obtain w1 where ex: "execute_subscriptions_list yt ''snippet'' tok w = (Inr (listing tok), w1)"
    by blast
  note e1 = execute_subscriptions_list_extends [OF ex]
  from 2(3) ex 2(2) have pi: "process_items yt p pc w1 = Some (Inr pc', w')"
    by (subst (asm) subscription_loop.simps) (auto split: option.splits sum.splits)
  note p2 = process_items_post [OF pi]
  have "requests_between w w' = requests_between w w1 @ requests_between w1 w'"
    using e1(1) p2 [THEN conjunct2, THEN conjunct1] by (rule extends_requests)
  with e1 p2 2(2) show ?case by (simp add: pages_requested_append)
next
  case (3 listing tok p q ps)
  from serves_execute [OF 3(2), of "''snippet''" tok w]
  obtain w1 where ex: "execute_subscriptions_list yt ''snippet'' tok w = (Inr (listing tok), w1)"
    by blast
  note e1 = execute_subscriptions_list_extends [OF ex]
  from 3(3) have l: "linked listing (nextPageToken (listing tok)) (q # ps)"
    and p: "items (listing tok) = p" and more: "\<not> no_token (nextPageToken (listing tok))"
    by simp_all
  from 3(4) ex p more obtain pc1 w2 where pi: "process_items yt p pc w1 = Some (Inr pc1, w2)"
    and rec: "subscription_loop yt (nextPageToken (listing tok)) pc1 w2 = Some (Inr pc', w')"
    by (subst (asm) subscription_loop.simps) (auto split: option.splits sum.splits)
  note p2 = process_items_post [OF pi]
  from p2 have e2: "extends w1 w2" by simp
  note ih = "3.IH" [OF 3(2) l rec]
  from subscription_loop_post [OF rec] have e3: "extends w2 w'" by simp
  have e12: "extends w w2" using e1(1) e2 by (rule extends_trans)
  have "requests_between w w2 = requests_between w w1 @ requests_between w1 w2"
    using e1(1) e2 by (rule extends_requests)
  moreover have "requests_between w w' = requests_between w w2 @ requests_between w2 w'"
    using e12 e3 by (rule extends_requests)
  ultimately show ?case using e1 p2 ih p by (auto simp: pages_requested_append)
qed

section \<open>Lines of the checkpoint file\<close>





section \<open>Errors pass through\<close>

text \<open>
  An \<^verbatim>\<open>HttpError\<close> of a request ends the method that sent it and every loop around
  it, in the world of the failed request, up to \<^verbatim>\<open>fetch_and_store_data\<close>.
\<close>

lemma process_video_error:
  "execute_videos_list yt (videoId v) w = (Inl e, w') \<Longrightarrow>
   process_video yt ct v w = (Inl e, w')"
  by (simp add: process_video_def)

lemma process_videos_error:
  "process_video yt ct v w = (Inl e, w') \<Longrightarrow> process_videos yt ct (v # vs) w = (Inl e, w')"
  by simp

lemma search_loop_error:
  "execute_search_list yt channel_id tok w = (Inl e, w') \<Longrightarrow>
   search_loop yt channel_id ct tok w = Some (Inl e, w')"
  by (subst search_loop.simps) simp

lemma search_loop_videos_error:
  "execute_search_list yt channel_id tok w = (Inr page, w1) \<Longrightarrow>
   process_videos yt ct (items page) w1 = (Inl e, w') \<Longrightarrow>
   search_loop yt channel_id ct tok w = Some (Inl e, w')"
  by (subst search_loop.simps) simp

lemma process_items_error:
  "channelId item \<notin> set pc \<Longrightarrow> process_subscription yt item w = Some (Inl e, w') \<Longrightarrow>
   process_items yt (item # rest) pc w = Some (Inl e, w')"
  by simp

lemma subscription_loop_error:
  "execute_subscriptions_list yt ''snippet'' tok w = (Inl e, w') \<Longrightarrow>
   subscription_loop yt tok pc w = Some (Inl e, w')"
  by (subst subscription_loop.simps) simp

lemma subscription_loop_items_error:
  "execute_subscriptions_list yt ''snippet'' tok w = (Inr page, w1) \<Longrightarrow>
   process_items yt (items page) pc w1 = Some (Inl e, w') \<Longrightarrow>
   subscription_loop yt tok pc w = Some (Inl e, w')"
  by (subst subscription_loop.simps) simp

lemma count_loop_error:
  "execute_subscriptions_list yt ''id'' tok w = (Inl e, w') \<Longrightarrow>
   count_loop yt c tok w = Some (Inl e, w')"
  by (subst count_loop.simps) simp

lemma counting_error_is_raised:
  "get_total_subscription_count yt w = Some (Inl e, w') \<Longrightarrow>
   fetch_and_store_data yt w = Some (Inl e, w')"
  by (simp add: fetch_and_store_data_def)

section \<open>The run as a whole\<close>

lemma fetch_cases:
  assumes "fetch_and_store_data yt w = Some (r, w')"
  obtains (count_error) e where "get_total_subscription_count yt w = Some (Inl e, w')" "r = Inl e"
  | (loop_error) T w1 e w2 where "get_total_subscription_count yt w = Some (Inr T, w1)"
      "subscription_loop yt None (load_processed_channels w) w1 = Some (Inl e, w2)"
      "r = Inr ()"
      "w' = w2\<lparr>logfile := logfile w2 @ [(ERROR, Http_error_occurred (status e) (content e))],
                console := console w2 @ [Http_error_occurred (status e) (content e)]\<rparr>"
  | (completed) T w1 C w2 where "get_total_subscription_count yt w = Some (Inr T, w1)"
      "subscription_loop yt None (load_processed_channels w) w1 = Some (Inr C, w2)"
      "r = Inr ()"
      "w' = w2\<lparr>checkpoint_file := Some (write_lines (if T \<le> set_len C then [] else C)),
                logfile := logfile w2 @ [(INFO, Completed)]\<rparr>"
  using assms unfolding fetch_and_store_data_def Let_def save_processed_channels_def
  by (auto split: option.splits sum.splits prod.splits if_splits)

lemma get_total_subscription_count_extends:
  assumes "get_total_subscription_count yt w = Some (r, w')"
  shows "extends w w'" and "channels_processed (requests_between w w') = []"
    and "videos w' = videos w" and "logfile w' = logfile w"
  using count_loop_extends [of yt 0 None w "(r, w')"] assms
  by (simp_all add: get_total_subscription_count_def)

lemma fetch_channels_processed:
  assumes "fetch_and_store_data yt w = Some (r, w')"
  shows "distinct (channels_processed (requests_between w w')) \<and>
         set (channels_processed (requests_between w w')) \<inter> set (load_processed_channels w) = {}"
  using assms
proof (cases rule: fetch_cases)
  case (count_error e)
  from get_total_subscription_count_extends(2) [OF count_error(1)] show ?thesis by simp
next
  case (loop_error T w1 e w2)
  note c = get_total_subscription_count_extends [OF loop_error(1)]
  from subscription_loop_post [OF loop_error(2)]
  have p: "pass_post (load_processed_channels w) w1 (Inl e) w2" and e: "extends w1 w2" by simp_all
  from loop_error(4) have "requests_between w w' = requests_between w w2"
    by (simp add: requests_between_def)
  also from c(1) e have "\<dots> = requests_between w w1 @ requests_between w1 w2"
    by (rule extends_requests)
  finally show ?thesis using c(2) p by (simp add: channels_processed_append pass_post_def)
next
  case (completed T w1 C w2)
  note c = get_total_subscription_count_extends [OF completed(1)]
  from subscription_loop_post [OF completed(2)]
  have p: "pass_post (load_processed_channels w) w1 (Inr C) w2" and e: "extends w1 w2" by simp_all
  from completed(4) have "requests_between w w' = requests_between w w2"
    by (simp add: requests_between_def)
  also from c(1) e have "\<dots> = requests_between w w1 @ requests_between w1 w2"
    by (rule extends_requests)
  finally show ?thesis using c(2) p by (simp add: channels_processed_append pass_post_def)
qed

lemmas run_simps =
  fetch_and_store_data_def get_total_subscription_count_def
  load_processed_channels_def save_processed_channels_def set_len_def set_add_def
  count_loop.simps subscription_loop.simps search_loop.simps process_subscription_def
  process_video_def save_to_database_def stat_def
  execute_subscriptions_list_def execute_search_list_def execute_videos_list_def no_token_def
  splitlines_def LF_def CR_def line_boundary_def requests_between_def

lemmas platform_simps =
  demo_def demo_listing_def demo_search_def demo_details_def sub_a_def sub_b_def
  quota_def down_def drifting_def fresh_world_def resumed_world_def stale_world_def

text \<open>
  C1: when the pass over the subscriptions has ended and the checkpoint has at least
  as many channels as the counting pass counted before the pass, the run writes an
  empty checkpoint file, and the next run loads an empty checkpoint. The count is the
  one taken before the first channel was processed.
\<close>

theorem reset_when_complete:
  assumes "get_total_subscription_count yt w = Some (Inr T, w1)"
      and "subscription_loop yt None (load_processed_channels w) w1 = Some (Inr C, w2)"
      and "T \<le> set_len C"
  shows "\<exists>w3. fetch_and_store_data yt w = Some (Inr (), w3) \<and>
           checkpoint_file w3 = Some [] \<and> load_processed_channels w3 = []"
  using assms
  by (simp add: fetch_and_store_data_def save_processed_channels_def
        load_processed_channels_def splitlines_def)

theorem reset_when_complete_witness:
  "map_option fst (get_total_subscription_count drifting fresh_world) = Some (Inr 1) \<and>
   (\<exists>w3. fetch_and_store_data drifting fresh_world = Some (Inr (), w3) \<and>
      checkpoint_file w3 = Some [] \<and> load_processed_channels w3 = [] \<and>
      map_option fst (get_total_subscription_count drifting w3) = Some (Inr 2))"
proof -
  let ?w1 = "fresh_world\<lparr>remote := 1, calls := [SubscriptionsList ''id'' None]\<rparr>"
  let ?w2 = "fresh_world\<lparr>remote := 3, calls := [SubscriptionsList ''id'' None,
               SubscriptionsList ''snippet'' None, SearchList ''UCa'' None]\<rparr>"
  have count: "get_total_subscription_count drifting fresh_world = Some (Inr 1, ?w1)"
    by (simp add: run_simps platform_simps)
  have pass: "subscription_loop drifting None (load_processed_channels fresh_world) ?w1
                = Some (Inr [''UCa''], ?w2)"
    by (simp add: run_simps platform_simps)
  have full: "1 \<le> set_len [''UCa'']" by (simp add: set_len_def)
  have run: "fetch_and_store_data drifting fresh_world
               = Some (Inr (), ?w2\<lparr>checkpoint_file := Some [], logfile := [(INFO, Completed)]\<rparr>)"
    by (simp add: run_simps platform_simps)
  have again: "map_option fst (get_total_subscription_count drifting
                 (?w2\<lparr>checkpoint_file := Some [], logfile := [(INFO, Completed)]\<rparr>)) = Some (Inr 2)"
    by (simp add: run_simps platform_simps)
  from reset_when_complete [OF count pass full] count run again show ?thesis by simp
qed



text \<open>
  C6 fails on the code: the counting pass runs before the \<^verbatim>\<open>try\<close>. When the first
  request of the run raises an HTTP error, \<^verbatim>\<open>fetch_and_store_data\<close> raises it, and
  nothing is logged or printed; the same request in the loop is inside the
  \<^verbatim>\<open>try\<close>.
\<close>

theorem counting_error_escapes:
  "fetch_and_store_data down fresh_world =
     Some (Inl (HttpError 403 ''quotaExceeded''),
           \<lparr>remote = 1, calls = [SubscriptionsList ''id'' None], checkpoint_file = None,
            videos = [], logfile = [], console = []\<rparr>)"
  by (simp add: run_simps platform_simps)

text \<open>
  C3: an item whose channel is in the checkpoint when the loop reaches it is passed
  over: the loop goes on with the checkpoint and the world as they are. In a run, no
  channel is processed twice, and none that the checkpoint file held at the start.
\<close>

theorem processed_at_most_once:
  "(channelId item \<in> set pc \<longrightarrow>
      process_items yt (item # rest) pc w0 = process_items yt rest pc w0) \<and>
   (fetch_and_store_data yt w = Some (r, w') \<longrightarrow>
      distinct (channels_processed (requests_between w w')) \<and>
      set (channels_processed (requests_between w w')) \<inter> set (load_processed_channels w) = {})"
  using fetch_channels_processed [of yt w r w'] by simp

theorem processed_at_most_once_witness:
  "process_items demo [sub_a, sub_b] [''UCa''] resumed_world
     = process_items demo [sub_b] [''UCa''] resumed_world \<and>
   load_processed_channels resumed_world = [''UCa''] \<and>
   (\<exists>w'. fetch_and_store_data demo resumed_world = Some (Inr (), w') \<and>
      channels_processed (requests_between resumed_world w') = [''UCb''])"
proof -
  let ?w' = "fresh_world\<lparr>remote := 9,
      calls := [SubscriptionsList ''id'' None, SubscriptionsList ''id'' (Some ''p2''),
        SubscriptionsList ''snippet'' None, SubscriptionsList ''snippet'' (Some ''p2''),
        SearchList ''UCb'' None, VideosList ''v2'', VideosList ''v3'',
        SearchList ''UCb'' (Some ''s2''), VideosList ''v4''],
      checkpoint_file := Some [],
      videos := [\<lparr>channel_title = ''Beta'', video_title = ''Second'',
                   views = PyStr ''7'', likes = PyInt 0, comment_count = PyStr ''1''\<rparr>],
      logfile := [(INFO, Video_saved ''Second''), (INFO, Video_saved ''Third''),
                  (INFO, Video_saved ''Fourth''), (INFO, Completed)]\<rparr>"
  have run: "fetch_and_store_data demo resumed_world = Some (Inr (), ?w')"
    by (simp add: run_simps platform_simps)
  have "channelId sub_a \<in> set [''UCa'']" by (simp add: sub_a_def)
  moreover have "load_processed_channels resumed_world = [''UCa'']"
    by (simp add: run_simps platform_simps)
  moreover have "channels_processed (requests_between resumed_world ?w') = [''UCb'']"
    by (simp add: requests_between_def platform_simps)
  ultimately show ?thesis
    using processed_at_most_once [of sub_a "[''UCa'']" demo "[sub_b]" resumed_world
            resumed_world "Inr ()" ?w'] run
    by simp
qed


lemma count_loop_requests:
  "serves yt listing \<Longrightarrow> linked listing tok pages \<Longrightarrow>
   count_loop yt c tok w = Some (r, w') \<Longrightarrow>
   map (\<lambda>t. items (listing t)) (pages_requested (requests_between w w')) = pages"
proof (induction listing tok pages arbitrary: c w rule: linked.induct)
  case (1 listing tok)
  then show ?case by simp
next
  case (2 listing tok p)
  from serves_execute [OF 2(1), of "''id''" tok w]
  obtain w1 where ex: "execute_subscriptions_list yt ''id'' tok w = (Inr (listing tok), w1)"
    by blast
  from 2(3) ex 2(2) have "w' = w1"
    by (subst (asm) count_loop.simps) simp
  with execute_subscriptions_list_extends(2) [OF ex] 2(2) show ?case by simp
next
  case (3 listing tok p q ps)
  from serves_execute [OF 3(2), of "''id''" tok w]
  obtain w1 where ex: "execute_subscriptions_list yt ''id'' tok w = (Inr (listing tok), w1)"
    by blast
  note e1 = execute_subscriptions_list_extends [OF ex]
  from 3(3) have l: "linked listing (nextPageToken (listing tok)) (q # ps)"
    and p: "items (listing tok) = p" by simp_all
  from 3(4) ex 3(3)
  have rec: "count_loop yt (c + int (length p)) (nextPageToken (listing tok)) w1 = Some (r, w')"
    by (subst (asm) count_loop.simps) simp
  from count_loop_extends [OF rec] have e2: "extends w1 w'" by simp
  have "requests_between w w' = requests_between w w1 @ requests_between w1 w'"
    using e1(1) e2 by (rule extends_requests)
  with "3.IH" [OF 3(2) l rec] e1(2) p show ?case by (simp add: pages_requested_append)
qed

text \<open>
  C2: when the platform holds the subscriptions in pages linked by continuation
  tokens, however the list is cut into pages and whatever their sizes, the counting
  pass fetches every page once, in order, and returns the number of subscriptions;
  and the processing pass, when the channel processor returns for every subscription,
  fetches every page once, in order, and ends with every subscription's channel in the
  checkpoint. The items a pass goes through are those of the pages it fetches: the
  subscriptions, each once.
\<close>

theorem pagination_exact:
  assumes "serves yt listing" and "linked listing None pages"
  shows "(\<exists>w'. get_total_subscription_count yt w = Some (Inr (int (length (concat pages))), w') \<and>
            map (\<lambda>t. items (listing t)) (pages_requested (requests_between w w')) = pages) \<and>
         (processor_returns yt (concat pages) \<longrightarrow>
            (\<exists>pc' w'. subscription_loop yt None pc w = Some (Inr pc', w') \<and>
               map (\<lambda>t. items (listing t)) (pages_requested (requests_between w w')) = pages \<and>
               set pc' = set pc \<union> channelId ` set (concat pages)))"
proof (intro conjI impI)
  from count_loop_pages [OF assms, of 0 w]
  obtain w' where c: "count_loop yt 0 None w = Some (Inr (int (length (concat pages))), w')"
    by auto
  from count_loop_requests [OF assms c] c
  show "\<exists>w'. get_total_subscription_count yt w = Some (Inr (int (length (concat pages))), w') \<and>
            map (\<lambda>t. items (listing t)) (pages_requested (requests_between w w')) = pages"
    by (simp add: get_total_subscription_count_def)
next
  assume "processor_returns yt (concat pages)"
  from subscription_loop_total [OF assms this, of pc w]
  obtain pc' w' where l: "subscription_loop yt None pc w = Some (Inr pc', w')" by blast
  from subscription_loop_pages [OF assms l] l
  show "\<exists>pc' w'. subscription_loop yt None pc w = Some (Inr pc', w') \<and>
               map (\<lambda>t. items (listing t)) (pages_requested (requests_between w w')) = pages \<and>
               set pc' = set pc \<union> channelId ` set (concat pages)"
    by simp
qed

lemma demo_serves: "serves demo demo_listing"
  by (simp add: serves_def demo_def)

lemma demo_linked: "linked demo_listing None demo_pages"
  by (simp add: demo_pages_def demo_listing_def no_token_def)

lemma demo_processor_returns: "processor_returns demo (concat demo_pages)"
  by (simp add: processor_returns_def demo_pages_def run_simps platform_simps)

theorem pagination_exact_witness:
  "serves demo demo_listing \<and> linked demo_listing None demo_pages \<and>
   processor_returns demo (concat demo_pages) \<and>
   (\<exists>w'. get_total_subscription_count demo fresh_world = Some (Inr 2, w') \<and>
      pages_requested (requests_between fresh_world w') = [None, Some ''p2'']) \<and>
   (\<exists>pc' w'. subscription_loop demo None [] fresh_world = Some (Inr pc', w') \<and>
      pages_requested (requests_between fresh_world w') = [None, Some ''p2''] \<and>
      set pc' = {''UCa'', ''UCb''})"
proof -
  let ?w1 = "fresh_world\<lparr>remote := 2,
               calls := [SubscriptionsList ''id'' None, SubscriptionsList ''id'' (Some ''p2'')]\<rparr>"
  have count: "get_total_subscription_count demo fresh_world = Some (Inr 2, ?w1)"
    by (simp add: run_simps platform_simps)
  have pass: "\<exists>pc' w'. subscription_loop demo None [] fresh_world = Some (Inr pc', w') \<and>
      pages_requested (requests_between fresh_world w') = [None, Some ''p2''] \<and>
      set pc' = {''UCa'', ''UCb''}"
    by (simp add: run_simps platform_simps) 
  from pagination_exact [OF demo_serves demo_linked, of fresh_world "[]"]
    demo_serves demo_linked demo_processor_returns count pass
  show ?thesis by (simp add: requests_between_def fresh_world_def)
qed


text \<open>
  C8 as stated fails: a channel that the checkpoint file holds and the account no
  longer follows is in the checkpoint when the reset clears it.
\<close>

theorem stale_id_at_clear_time:
  "serves demo demo_listing \<and> linked demo_listing None demo_pages \<and>
   ''UCx'' \<notin> channelId ` set (concat demo_pages) \<and>
   get_total_subscription_count demo stale_world =
     Some (Inr 2, stale_world\<lparr>remote := 2,
       calls := [SubscriptionsList ''id'' None, SubscriptionsList ''id'' (Some ''p2'')]\<rparr>) \<and>
   map_option fst (subscription_loop demo None (load_processed_channels stale_world)
     (stale_world\<lparr>remote := 2,
       calls := [SubscriptionsList ''id'' None, SubscriptionsList ''id'' (Some ''p2'')]\<rparr>))
     = Some (Inr [''UCx'', ''UCa'', ''UCb'']) \<and>
   2 \<le> set_len [''UCx'', ''UCa'', ''UCb''] \<and>
   map_option (\<lambda>y. checkpoint_file (snd y)) (fetch_and_store_data demo stale_world)
     = Some (Some [])"
  by (simp add: serves_def demo_pages_def run_simps platform_simps)

text \<open>
  C8 as amended: from any turn of the loop over the subscriptions to its end the
  checkpoint only grows, and by the channels processed in between, no others; the run
  then writes the whole checkpoint to the file, or the empty one. Channels the account
  no longer follows stay in the checkpoint until it is emptied.
\<close>

theorem checkpoint_only_grows:
  "(subscription_loop yt tok pc w = Some (Inr pc', w') \<longrightarrow>
      set pc \<subseteq> set pc' \<and>
      set pc' = set pc \<union> set (channels_processed (requests_between w w'))) \<and>
   (get_total_subscription_count yt w0 = Some (Inr T, w1) \<longrightarrow>
    subscription_loop yt None (load_processed_channels w0) w1 = Some (Inr C, w2) \<longrightarrow>
      (\<exists>w3. fetch_and_store_data yt w0 = Some (Inr (), w3) \<and>
         checkpoint_file w3 = Some (write_lines (if T \<le> set_len C then [] else C))))"
proof (intro conjI impI)
  assume "subscription_loop yt tok pc w = Some (Inr pc', w')"
  from subscription_loop_post [OF this]
  have "set pc' = set pc \<union> set (channels_processed (requests_between w w'))"
    by (simp add: pass_post_def)
  then show "set pc \<subseteq> set pc'"
    and "set pc' = set pc \<union> set (channels_processed (requests_between w w'))" by auto
next
  assume "get_total_subscription_count yt w0 = Some (Inr T, w1)"
    and "subscription_loop yt None (load_processed_channels w0) w1 = Some (Inr C, w2)"
  then show "\<exists>w3. fetch_and_store_data yt w0 = Some (Inr (), w3) \<and>
         checkpoint_file w3 = Some (write_lines (if T \<le> set_len C then [] else C))"
    by (simp add: fetch_and_store_data_def save_processed_channels_def)
qed

theorem checkpoint_only_grows_witness:
  "(\<exists>w2. subscription_loop demo None [''UCx'']
      (stale_world\<lparr>remote := 2,
         calls := [SubscriptionsList ''id'' None, SubscriptionsList ''id'' (Some ''p2'')]\<rparr>)
      = Some (Inr [''UCx'', ''UCa'', ''UCb''], w2) \<and>
      channels_processed (requests_between
        (stale_world\<lparr>remote := 2,
           calls := [SubscriptionsList ''id'' None, SubscriptionsList ''id'' (Some ''p2'')]\<rparr>) w2)
        = [''UCa'', ''UCb'']) \<and>
   (\<exists>w3. fetch_and_store_data demo stale_world = Some (Inr (), w3) \<and>
      checkpoint_file w3 = Some [])"
proof -
  let ?w1 = "stale_world\<lparr>remote := 2,
               calls := [SubscriptionsList ''id'' None, SubscriptionsList ''id'' (Some ''p2'')]\<rparr>"
  let ?w2 = "stale_world\<lparr>remote := 11,
      calls := [SubscriptionsList ''id'' None, SubscriptionsList ''id'' (Some ''p2''),
        SubscriptionsList ''snippet'' None, SearchList ''UCa'' None, VideosList ''v1'',
        SubscriptionsList ''snippet'' (Some ''p2''), SearchList ''UCb'' None,
        VideosList ''v2'', VideosList ''v3'', SearchList ''UCb'' (Some ''s2''),
        VideosList ''v4''],
      videos := [\<lparr>channel_title = ''Alpha'', video_title = ''First'',
                   views = PyStr ''10'', likes = PyStr ''2'', comment_count = PyInt 0\<rparr>,
                 \<lparr>channel_title = ''Beta'', video_title = ''Second'',
                   views = PyStr ''7'', likes = PyInt 0, comment_count = PyStr ''1''\<rparr>],
      logfile := [(INFO, Video_saved ''First''), (INFO, Video_saved ''Second''),
                  (INFO, Video_saved ''Third''), (INFO, Video_saved ''Fourth'')]\<rparr>"
  have load: "load_processed_channels stale_world = [''UCx'']"
    by (simp add: run_simps platform_simps)
  have count: "get_total_subscription_count demo stale_world = Some (Inr 2, ?w1)"
    by (simp add: run_simps platform_simps)
  have pass: "subscription_loop demo None [''UCx''] ?w1 = Some (Inr [''UCx'', ''UCa'', ''UCb''], ?w2)"
    by (simp add: run_simps platform_simps)
  have between: "channels_processed (requests_between ?w1 ?w2) = [''UCa'', ''UCb'']"
    by (simp add: requests_between_def platform_simps)
  from checkpoint_only_grows [of demo None "[''UCx'']" ?w1 "[''UCx'', ''UCa'', ''UCb'']" ?w2
         stale_world 2 ?w1 "[''UCx'', ''UCa'', ''UCb'']" ?w2]
    load count pass between
  show ?thesis by (simp add: set_len_def)
qed

text \<open>
  C10: without a checkpoint file \<^verbatim>\<open>load_processed_channels\<close> returns the empty set.
  The run then starts from the empty checkpoint: when the platform holds the
  subscriptions in pages and the channel processor returns for each of them, the run
  ends and has processed the channel of every subscription, once.
\<close>

theorem first_run_processes_all:
  assumes "checkpoint_file w = None"
  shows "load_processed_channels w = [] \<and>
         (serves yt listing \<longrightarrow> linked listing None pages \<longrightarrow>
          processor_returns yt (concat pages) \<longrightarrow>
            (\<exists>w'. fetch_and_store_data yt w = Some (Inr (), w') \<and>
               distinct (channels_processed (requests_between w w')) \<and>
               set (channels_processed (requests_between w w')) = channelId ` set (concat pages)))"
proof (intro conjI impI)
  from assms show empty: "load_processed_channels w = []"
    by (simp add: load_processed_channels_def)
  assume s: "serves yt listing" and l: "linked listing None pages"
    and p: "processor_returns yt (concat pages)"
  from count_loop_pages [OF s l, of 0 w]
  obtain w1 where c: "get_total_subscription_count yt w = Some (Inr (int (length (concat pages))), w1)"
    by (auto simp: get_total_subscription_count_def)
  note c1 = get_total_subscription_count_extends [OF c]
  from subscription_loop_total [OF s l p, of "[]" w1]
  obtain C w2 where pass: "subscription_loop yt None [] w1 = Some (Inr C, w2)" by blast
  from subscription_loop_post [OF pass]
  have post: "pass_post [] w1 (Inr C) w2" and e2: "extends w1 w2" by simp_all
  from subscription_loop_pages [OF s l pass]
  have all: "set C = channelId ` set (concat pages)" by simp
  let ?w' = "(save_processed_channels
               (if int (length (concat pages)) \<le> set_len C then [] else C) w2)
             \<lparr>logfile := logfile w2 @ [(INFO, Completed)]\<rparr>"
  from c pass empty have run: "fetch_and_store_data yt w = Some (Inr (), ?w')"
    by (simp add: fetch_and_store_data_def save_processed_channels_def)
  have "requests_between w ?w' = requests_between w w2"
    by (simp add: requests_between_def save_processed_channels_def)
  also from c1(1) e2 have "\<dots> = requests_between w w1 @ requests_between w1 w2"
    by (rule extends_requests)
  finally have "channels_processed (requests_between w ?w')
                  = channels_processed (requests_between w1 w2)"
    using c1(2) by (simp add: channels_processed_append)
  with post all run
  show "\<exists>w'. fetch_and_store_data yt w = Some (Inr (), w') \<and>
               distinct (channels_processed (requests_between w w')) \<and>
               set (channels_processed (requests_between w w')) = channelId ` set (concat pages)"
    by (auto simp: pass_post_def)
qed

theorem first_run_processes_all_witness:
  "checkpoint_file fresh_world = None \<and> load_processed_channels fresh_world = [] \<and>
   (\<exists>w'. fetch_and_store_data demo fresh_world = Some (Inr (), w') \<and>
      channels_processed (requests_between fresh_world w') = [''UCa'', ''UCb''])"
proof -
  have none: "checkpoint_file fresh_world = None" by (simp add: fresh_world_def)
  have run: "\<exists>w'. fetch_and_store_data demo fresh_world = Some (Inr (), w') \<and>
      channels_processed (requests_between fresh_world w') = [''UCa'', ''UCb'']"
    by (simp add: run_simps platform_simps)
  from first_run_processes_all [OF none, of demo demo_listing demo_pages]
    demo_serves demo_linked demo_processor_returns none run
  show ?thesis by simp
qed

section \<open>Rows, statistics and the checkpoint file\<close>





text \<open>
  C4: when the statistics lookup of a video answers with an empty list of items, or
  with no list at all, \<^verbatim>\<open>process_video\<close> returns without an error, the table
  \<^verbatim>\<open>videos\<close> is as before, and the video is logged as saved all the same.
\<close>

theorem missing_statistics_skipped:
  assumes "videos_list yt (videoId v) (remote w) = (Inr d, s)"
      and "d = None \<or> d = Some []"
  shows "\<exists>w'. process_video yt ct v w = (Inr (), w') \<and> videos w' = videos w \<and>
           logfile w' = logfile w @ [(INFO, Video_saved (videoTitle v))]"
  using assms by (auto simp: process_video_def execute_videos_list_def)

theorem missing_statistics_skipped_witness:
  "videos_list demo ''v3'' (remote fresh_world) = (Inr (Some []), 1) \<and>
   (\<exists>w'. process_video demo ''Beta'' \<lparr>videoId = ''v3'', videoTitle = ''Third''\<rparr> fresh_world = (Inr (), w') \<and>
      videos w' = [] \<and> logfile w' = [(INFO, Video_saved ''Third'')])"
proof -
  have h: "videos_list demo (videoId \<lparr>videoId = ''v3'', videoTitle = ''Third''\<rparr>) (remote fresh_world)
             = (Inr (Some []), 1)"
    by (simp add: demo_def demo_details_def fresh_world_def)
  from missing_statistics_skipped [OF h, of "''Beta''"] h show ?thesis
    by (simp add: fresh_world_def)
qed




end
